theory Spec2Isabelle
  imports Complex_Main
begin

section \<open>Sequence formatter: \<open>get_tokens_and_segments\<close>\<close>

text \<open>
  The notebook's helper builds the BERT input from one or two token lists:
  \<^verbatim>\<open>
  def get_tokens_and_segments(tokens_a, tokens_b=None):
      tokens = ['<cls>'] + tokens_a + ['<sep>']
      segments = [0] * (len(tokens_a) + 2)
      if tokens_b is not None:
          tokens += tokens_b + ['<sep>']
          segments += [1] * (len(tokens_b) + 1)
      return tokens, segments
  \<close>
  Tokens are Python strings, segment ids are Python integers. The optional second
  list is an \<open>option\<close>: \<open>None\<close> is Python's \<open>None\<close>, and \<open>Some []\<close> is the empty
  list, which the test \<open>is not None\<close> lets through. \<open>tokens\<close> is a fresh list built by
  \<open>+\<close>, so the in-place \<open>+=\<close> touches neither argument.
\<close>

definition get_tokens_and_segments ::
  "string list \<Rightarrow> string list option \<Rightarrow> string list \<times> int list" where
  "get_tokens_and_segments tokens_a tokens_b =
     (let tokens = [''<cls>''] @ tokens_a @ [''<sep>''];
          segments = replicate (length tokens_a + 2) (0::int)
      in case tokens_b of
           None \<Rightarrow> (tokens, segments)
         | Some tb \<Rightarrow> (tokens @ tb @ [''<sep>''],
                      segments @ replicate (length tb + 1) (1::int)))"

section \<open>Tensors and the library operations used by \<open>MaskLM.forward\<close>\<close>

text \<open>
  The masked-language-model head of the notebook:
  \<^verbatim>\<open>
  class MaskLM(nn.Module):
      def __init__(self, vocab_size, num_hiddens, **kwargs):
          super(MaskLM, self).__init__(**kwargs)
          self.mlp = nn.Sequential(nn.LazyLinear(num_hiddens),
                                   nn.ReLU(),
                                   nn.LayerNorm(num_hiddens),
                                   nn.LazyLinear(vocab_size))

      def forward(self, X, pred_positions):
          num_pred_positions = pred_positions.shape[1]
          pred_positions = pred_positions.reshape(-1)
          batch_size = X.shape[0]
          batch_idx = torch.arange(0, batch_size)
          batch_idx = torch.repeat_interleave(batch_idx, num_pred_positions)
          masked_X = X[batch_idx, pred_positions]
          masked_X = masked_X.reshape((batch_size, num_pred_positions, -1))
          mlm_Y_hat = self.mlp(masked_X)
          return mlm_Y_hat
  \<close>
  A tensor is its shape together with its entries in row-major order; a well-formed
  tensor has as many entries as the product of its shape. Every Python exception that
  the body can raise is a value: the result type is \<open>py_error + 'a tensor\<close>, with the
  exception class on the left.
\<close>

datatype py_error = IndexError | RuntimeError

record 'a tensor =
  shape :: "nat list"
  data :: "'a list"

definition numel :: "'a tensor \<Rightarrow> nat" where
  "numel t = prod_list (shape t)"

text \<open>\<open>t.shape[i]\<close> for a literal index: a tuple index out of range is an \<open>IndexError\<close>.\<close>

definition shape_at :: "'a tensor \<Rightarrow> nat \<Rightarrow> py_error + nat" where
  "shape_at t i = (if i < length (shape t) then Inr (shape t ! i) else Inl IndexError)"

text \<open>
  \<open>t.reshape(shp)\<close> keeps the entries and computes the new shape as the library does: at
  most one entry of \<open>shp\<close> is \<open>-1\<close>, the others are non-negative and multiply to
  \<open>newsize\<close>; the request is accepted when the number of elements equals \<open>newsize\<close>, or
  when a dimension is to be inferred, \<open>newsize\<close> is positive and divides the number of
  elements. An inferred dimension next to a zero dimension is rejected as ambiguous
  (\<open>cannot reshape tensor of 0 elements into shape ...\<close>); every rejection is a
  \<open>RuntimeError\<close>.
\<close>

definition infer_size :: "int list \<Rightarrow> nat \<Rightarrow> py_error + nat list" where
  "infer_size shp n =
     (if list_ex (\<lambda>d. d < -1) shp \<or> 1 < length (filter (\<lambda>d. d = -1) shp)
      then Inl RuntimeError
      else
        let newsize = prod_list (map nat (filter (\<lambda>d. d \<noteq> -1) shp));
            infer_dim = list_ex (\<lambda>d. d = -1) shp
        in if n = newsize \<or> (infer_dim \<and> 0 < newsize \<and> n mod newsize = 0)
           then (if infer_dim \<and> newsize = 0 then Inl RuntimeError
                 else Inr (map (\<lambda>d. if d = -1 then n div newsize else nat d) shp))
           else Inl RuntimeError)"

definition reshape :: "'a tensor \<Rightarrow> int list \<Rightarrow> py_error + 'a tensor" where
  "reshape t shp =
     (case infer_size shp (numel t) of
        Inl e \<Rightarrow> Inl e
      | Inr s \<Rightarrow> Inr \<lparr>shape = s, data = data t\<rparr>)"

text \<open>\<open>torch.arange(start, stop)\<close> and \<open>torch.repeat_interleave(t, repeats)\<close> on a
  one-dimensional tensor: every entry is repeated \<open>repeats\<close> times, in place.\<close>

definition arange :: "nat \<Rightarrow> nat \<Rightarrow> int tensor" where
  "arange start stop = \<lparr>shape = [stop - start], data = map int [start..<stop]\<rparr>"

definition repeat_interleave :: "'a tensor \<Rightarrow> nat \<Rightarrow> 'a tensor" where
  "repeat_interleave t repeats =
     \<lparr>shape = [numel t * repeats], data = concat (map (replicate repeats) (data t))\<rparr>"

text \<open>
  \<open>t[idx0, idx1]\<close> with two one-dimensional integer index tensors (both index tensors of
  \<open>forward\<close> are one-dimensional: one comes from \<open>reshape(-1)\<close>, the other from
  \<open>repeat_interleave\<close>). The tensor needs at least two dimensions. The two index lists are
  broadcast against each other: equal lengths are paired, a list of length one is
  repeated to the length of the other, anything else is a shape mismatch. An index \<open>i\<close>
  into a dimension of size \<open>sz\<close> is accepted when \<open>-sz \<le> i < sz\<close>, a negative one counting
  from the end. Shape mismatch and out-of-range index are both \<open>IndexError\<close>. The result
  has one row per index pair, followed by the remaining dimensions of \<open>t\<close>.
\<close>

definition in_bounds :: "nat \<Rightarrow> int \<Rightarrow> bool" where
  "in_bounds sz i = (- int sz \<le> i \<and> i < int sz)"

definition wrap_index :: "nat \<Rightarrow> int \<Rightarrow> nat" where
  "wrap_index sz i = nat (if i < 0 then i + int sz else i)"

definition broadcast_indices :: "int list \<Rightarrow> int list \<Rightarrow> py_error + (int \<times> int) list" where
  "broadcast_indices is js =
     (if length is = length js then Inr (zip is js)
      else if length is = 1 then Inr (zip (replicate (length js) (hd is)) js)
      else if length js = 1 then Inr (zip is (replicate (length is) (hd js)))
      else Inl IndexError)"

definition index2 :: "'a tensor \<Rightarrow> int tensor \<Rightarrow> int tensor \<Rightarrow> py_error + 'a tensor" where
  "index2 t idx0 idx1 =
     (case shape t of
        d0 # d1 # rest \<Rightarrow>
          (case broadcast_indices (data idx0) (data idx1) of
             Inl e \<Rightarrow> Inl e
           | Inr pairs \<Rightarrow>
               if list_all (\<lambda>(i, j). in_bounds d0 i \<and> in_bounds d1 j) pairs
               then Inr \<lparr>shape = length pairs # rest,
                         data = concat (map (\<lambda>(i, j).
                                  take (prod_list rest)
                                    (drop ((wrap_index d0 i * d1 + wrap_index d1 j) * prod_list rest)
                                       (data t))) pairs)\<rparr>
               else Inl IndexError)
      | _ \<Rightarrow> Inl IndexError)"

section \<open>The gather of \<open>MaskLM.forward\<close>\<close>

text \<open>
  \<open>masked_X\<close> is the body of \<open>forward\<close> up to and including the second assignment to the
  variable of that name, that is, the tensor handed to \<open>self.mlp\<close>. The statements are
  taken in the order of the source, each one able to raise.
\<close>

definition masked_X :: "'a tensor \<Rightarrow> int tensor \<Rightarrow> py_error + 'a tensor" where
  "masked_X X pred_positions =
     (case shape_at pred_positions 1 of
        Inl e \<Rightarrow> Inl e
      | Inr num_pred_positions \<Rightarrow>
     (case reshape pred_positions [-1] of
        Inl e \<Rightarrow> Inl e
      | Inr pred_positions' \<Rightarrow>
     (case shape_at X 0 of
        Inl e \<Rightarrow> Inl e
      | Inr batch_size \<Rightarrow>
          let batch_idx = arange 0 batch_size;
              batch_idx' = repeat_interleave batch_idx num_pred_positions
          in (case index2 X batch_idx' pred_positions' of
                Inl e \<Rightarrow> Inl e
              | Inr gathered \<Rightarrow>
                  reshape gathered [int batch_size, int num_pred_positions, -1]))))"

section \<open>The layers of \<open>self.mlp\<close>\<close>

text \<open>
  The four layers act on the last axis of their input. \<open>rows\<close> lists the vectors along
  the last axis in order, and \<open>map_rows\<close> rebuilds a tensor from their images. The
  arithmetic of the layers is written over the real numbers: the rounding of the
  floating-point kernels is not modelled, and nothing proved below depends on it.

  The two \<open>LazyLinear\<close> layers fix their input width on the first call; the records
  describe the module after that, with its parameters as fields. \<open>Linear\<close> computes
  \<open>x W\<^sup>T + b\<close>, \<open>ReLU\<close> is \<open>max(0, x)\<close> entrywise, and \<open>LayerNorm\<close> subtracts the mean of
  the vector, divides by the square root of its (biased) variance plus \<open>eps\<close>, and applies
  the entrywise scale and shift. A last axis of the wrong width is a \<open>RuntimeError\<close>.
\<close>

record Linear =
  in_features :: nat
  out_features :: nat
  weight :: "real list list"
  bias :: "real list"

record LayerNorm =
  normalized_shape :: nat
  eps :: real
  ln_weight :: "real list"
  ln_bias :: "real list"

record MaskLM =
  mlp_0 :: Linear
  mlp_2 :: LayerNorm
  mlp_3 :: Linear

definition rows :: "'a tensor \<Rightarrow> 'a list list" where
  "rows t =
     (let d = last (shape t)
      in map (\<lambda>i. take d (drop (i * d) (data t))) [0..<prod_list (butlast (shape t))])"

definition map_rows :: "('a list \<Rightarrow> 'b list) \<Rightarrow> nat \<Rightarrow> 'a tensor \<Rightarrow> 'b tensor" where
  "map_rows f d t = \<lparr>shape = butlast (shape t) @ [d], data = concat (map f (rows t))\<rparr>"

definition linear_vec :: "Linear \<Rightarrow> real list \<Rightarrow> real list" where
  "linear_vec l x = map2 (\<lambda>w b. sum_list (map2 (*) w x) + b) (weight l) (bias l)"

definition Linear_forward :: "Linear \<Rightarrow> real tensor \<Rightarrow> py_error + real tensor" where
  "Linear_forward l t =
     (if shape t = [] \<or> last (shape t) \<noteq> in_features l then Inl RuntimeError
      else Inr (map_rows (linear_vec l) (out_features l) t))"

definition ReLU :: "real tensor \<Rightarrow> real tensor" where
  "ReLU t = \<lparr>shape = shape t, data = map (max 0) (data t)\<rparr>"

definition layer_norm_vec :: "LayerNorm \<Rightarrow> real list \<Rightarrow> real list" where
  "layer_norm_vec nl x =
     (let n = real (length x);
          mean = sum_list x / n;
          var = sum_list (map (\<lambda>v. (v - mean)\<^sup>2) x) / n
      in map (\<lambda>(v, g, b). (v - mean) / sqrt (var + eps nl) * g + b)
           (zip x (zip (ln_weight nl) (ln_bias nl))))"

definition LayerNorm_forward :: "LayerNorm \<Rightarrow> real tensor \<Rightarrow> py_error + real tensor" where
  "LayerNorm_forward nl t =
     (if shape t = [] \<or> last (shape t) \<noteq> normalized_shape nl then Inl RuntimeError
      else Inr (map_rows (layer_norm_vec nl) (normalized_shape nl) t))"

text \<open>\<open>nn.Sequential\<close> runs the layers in order; the first exception ends the call.\<close>

definition mlp :: "MaskLM \<Rightarrow> real tensor \<Rightarrow> py_error + real tensor" where
  "mlp m t =
     (case Linear_forward (mlp_0 m) t of
        Inl e \<Rightarrow> Inl e
      | Inr h0 \<Rightarrow>
          (case LayerNorm_forward (mlp_2 m) (ReLU h0) of
             Inl e \<Rightarrow> Inl e
           | Inr h2 \<Rightarrow> Linear_forward (mlp_3 m) h2))"

definition forward :: "MaskLM \<Rightarrow> real tensor \<Rightarrow> int tensor \<Rightarrow> py_error + real tensor" where
  "forward m X pred_positions =
     (case masked_X X pred_positions of
        Inl e \<Rightarrow> Inl e
      | Inr mx \<Rightarrow> mlp m mx)"

text \<open>
  A module built by \<open>MaskLM(vocab_size, num_hiddens)\<close> whose lazy layers have been
  initialised for inputs with \<open>num_inputs\<close> features: the widths of the layers fit, and
  \<open>LayerNorm\<close> has its default \<open>eps = 1e-5\<close>. The values of the parameters are free.
\<close>

definition Linear_ok :: "nat \<Rightarrow> nat \<Rightarrow> Linear \<Rightarrow> bool" where
  "Linear_ok n_in n_out l =
     (in_features l = n_in \<and> out_features l = n_out \<and> length (weight l) = n_out
      \<and> list_all (\<lambda>w. length w = n_in) (weight l) \<and> length (bias l) = n_out)"

definition MaskLM_init :: "nat \<Rightarrow> nat \<Rightarrow> nat \<Rightarrow> MaskLM \<Rightarrow> bool" where
  "MaskLM_init vocab_size num_hiddens num_inputs m =
     (Linear_ok num_inputs num_hiddens (mlp_0 m)
      \<and> normalized_shape (mlp_2 m) = num_hiddens
      \<and> eps (mlp_2 m) = 1 / 100000
      \<and> length (ln_weight (mlp_2 m)) = num_hiddens
      \<and> length (ln_bias (mlp_2 m)) = num_hiddens
      \<and> Linear_ok num_hiddens vocab_size (mlp_3 m))"

section \<open>Reading tensors in the statements\<close>

text \<open>
  \<open>vec_at t b k\<close> is the vector \<open>t[b, k]\<close> of a three-dimensional tensor, \<open>pos_at p b k\<close> the
  entry \<open>p[b][k]\<close> of a two-dimensional one, and \<open>batch_at t b\<close> the entries of \<open>t[b]\<close>.
  \<open>mlp_vec\<close> is the composition of the four layers on a single vector.
\<close>

definition vec_at :: "'a tensor \<Rightarrow> nat \<Rightarrow> nat \<Rightarrow> 'a list" where
  "vec_at t b k =
     (case shape t of
        [d0, d1, d2] \<Rightarrow> take d2 (drop ((b * d1 + k) * d2) (data t))
      | _ \<Rightarrow> [])"

definition pos_at :: "int tensor \<Rightarrow> nat \<Rightarrow> nat \<Rightarrow> int" where
  "pos_at p b k =
     (case shape p of
        [d0, d1] \<Rightarrow> data p ! (b * d1 + k)
      | _ \<Rightarrow> 0)"

definition batch_at :: "'a tensor \<Rightarrow> nat \<Rightarrow> 'a list" where
  "batch_at t b =
     (let sz = prod_list (tl (shape t)) in take sz (drop (b * sz) (data t)))"

definition mlp_vec :: "MaskLM \<Rightarrow> real list \<Rightarrow> real list" where
  "mlp_vec m x =
     linear_vec (mlp_3 m) (layer_norm_vec (mlp_2 m) (map (max 0) (linear_vec (mlp_0 m) x)))"

text \<open>Two concrete modules for the examples: one for inputs with a single feature, one
  for the sixteen features of the specification's example.\<close>

definition mlm_small :: MaskLM where
  "mlm_small =
     \<lparr>mlp_0 = \<lparr>in_features = 1, out_features = 2, weight = [[1], [0]], bias = [0, 0]\<rparr>,
      mlp_2 = \<lparr>normalized_shape = 2, eps = 1 / 100000, ln_weight = [1, 1], ln_bias = [0, 0]\<rparr>,
      mlp_3 = \<lparr>in_features = 2, out_features = 1, weight = [[1, 0]], bias = [0]\<rparr>\<rparr>"

definition mlm_wide :: MaskLM where
  "mlm_wide =
     \<lparr>mlp_0 = \<lparr>in_features = 16, out_features = 2,
              weight = [replicate 16 1, replicate 16 0], bias = [0, 0]\<rparr>,
      mlp_2 = \<lparr>normalized_shape = 2, eps = 1 / 100000, ln_weight = [1, 1], ln_bias = [0, 0]\<rparr>,
      mlp_3 = \<lparr>in_features = 2, out_features = 3,
              weight = [[1, 0], [0, 1], [1, 1]], bias = [0, 0, 0]\<rparr>\<rparr>"

section \<open>Lists of equally long blocks\<close>

lemma length_concat_uniform:
  "\<forall>xs\<in>set xss. length xs = d \<Longrightarrow> length (concat xss) = length xss * d"
  by (induction xss) auto

lemma take_drop_concat_uniform:
  "\<forall>xs\<in>set xss. length xs = d \<Longrightarrow> i < length xss \<Longrightarrow>
     take d (drop (i * d) (concat xss)) = xss ! i"
proof (induction xss arbitrary: i)
  case Nil
  then show ?case by simp
next
  case (Cons x xss)
  show ?case
  proof (cases i)
    case 0
    with Cons.prems show ?thesis by simp
  next
    case (Suc j)
    with Cons.prems have "j < length xss" by simp
    moreover from Cons.prems have "\<forall>xs\<in>set xss. length xs = d" and "length x = d" by simp_all
    ultimately show ?thesis using Cons.IH[of j] Suc by simp
  qed
qed

lemma nth_concat_replicate:
  "i < length xs \<Longrightarrow> k < n \<Longrightarrow> concat (map (replicate n) xs) ! (i * n + k) = xs ! i"
proof (induction xs arbitrary: i)
  case Nil
  then show ?case by simp
next
  case (Cons x xs)
  show ?case
  proof (cases i)
    case 0
    with Cons.prems show ?thesis by (simp add: nth_append)
  next
    case (Suc j)
    with Cons.prems have "j < length xs" by simp
    from Cons.IH[OF this Cons.prems(2)] Suc show ?thesis
      by (simp add: nth_append add.assoc)
  qed
qed

lemma length_concat_replicate:
  "length (concat (map (replicate n) xs)) = length xs * n"
  by (induction xs) auto

section \<open>The gather, step by step\<close>

text \<open>
  The two reshapes of \<open>forward\<close>, and the body of \<open>masked_X\<close> for a hidden-state tensor
  with three dimensions and positions with two: what remains is the broadcast of the two
  index lists, the range test and the final reshape.
\<close>

lemma infer_size_flatten: "infer_size [-1] N = Inr [N]"
  by (simp add: infer_size_def)

lemma infer_size_batch:
  "infer_size [int B, int n, -1] N =
     (if B * n = 0 then Inl RuntimeError
      else if N mod (B * n) = 0 then Inr [B, n, N div (B * n)]
      else Inl RuntimeError)"
  by (auto simp add: infer_size_def Let_def)

lemma batch_idx_in_bounds:
  "x \<in> set (concat (map (replicate n) (map int [0..<B]))) \<Longrightarrow> in_bounds B x"
  by (auto simp add: in_bounds_def)

lemma masked_X_unfold:
  assumes "shape X = [B, P, F]" and "shape pp = [B', n]"
  shows "masked_X X pp =
     (case broadcast_indices (concat (map (replicate n) (map int [0..<B]))) (data pp) of
        Inl e \<Rightarrow> Inl e
      | Inr pairs \<Rightarrow>
          if list_all (\<lambda>(i, j). in_bounds B i \<and> in_bounds P j) pairs
          then reshape \<lparr>shape = [length pairs, F],
                 data = concat (map (\<lambda>(i, j).
                          take F (drop ((wrap_index B i * P + wrap_index P j) * F) (data X)))
                        pairs)\<rparr> [int B, int n, -1]
          else Inl IndexError)"
  using assms
  by (simp add: masked_X_def shape_at_def reshape_def infer_size_flatten arange_def
      repeat_interleave_def index2_def Let_def split: sum.splits)

lemma list_all_zip_right:
  "length xs = length ys \<Longrightarrow> \<forall>x\<in>set xs. Q x \<Longrightarrow>
     list_all (\<lambda>(i, j). Q i \<and> R j) (zip xs ys) = list_all R ys"
  by (induction xs ys rule: list_induct2) auto

lemma reshape_gathered:
  "reshape \<lparr>shape = [L, F], data = ds\<rparr> [int B, int n, -1] =
     (if B * n = 0 then Inl RuntimeError
      else if (L * F) mod (B * n) = 0
      then Inr \<lparr>shape = [B, n, (L * F) div (B * n)], data = ds\<rparr>
      else Inl RuntimeError)"
  by (simp add: reshape_def numel_def infer_size_batch)

lemma masked_X_matched:
  assumes X: "shape X = [B, P, F]" and pp: "shape pp = [B, n]"
    and len: "length (data pp) = B * n"
  shows "masked_X X pp =
     (if B = 0 \<or> n = 0 then Inl RuntimeError
      else if list_all (in_bounds P) (data pp)
      then Inr \<lparr>shape = [B, n, F],
             data = concat (map (\<lambda>(i, j).
                      take F (drop ((wrap_index B i * P + wrap_index P j) * F) (data X)))
                    (zip (concat (map (replicate n) (map int [0..<B]))) (data pp)))\<rparr>
      else Inl IndexError)"
proof -
  let ?bi = "concat (map (replicate n) (map int [0..<B]))"
  have lbi: "length ?bi = length (data pp)"
    using length_concat_replicate[of n "map int [0..<B]"] len by simp
  have bc: "broadcast_indices ?bi (data pp) = Inr (zip ?bi (data pp))"
    using lbi by (simp add: broadcast_indices_def)
  have la: "list_all (\<lambda>(i, j). in_bounds B i \<and> in_bounds P j) (zip ?bi (data pp))
              = list_all (in_bounds P) (data pp)"
    using lbi batch_idx_in_bounds by (intro list_all_zip_right) blast+
  have lz: "length (zip ?bi (data pp)) = B * n"
    using lbi len by simp
  have empty: "B = 0 \<or> n = 0 \<Longrightarrow> list_all (in_bounds P) (data pp)"
    using len by auto
  show ?thesis
    unfolding masked_X_unfold[OF X pp] bc sum.case la lz reshape_gathered
    using empty by auto
qed

lemma wrap_index_less: "in_bounds sz i \<Longrightarrow> wrap_index sz i < sz"
  by (auto simp add: in_bounds_def wrap_index_def)

lemma wrap_index_nonneg: "0 \<le> i \<Longrightarrow> wrap_index sz i = nat i"
  by (simp add: wrap_index_def)

lemma flat_index_less:
  assumes "b < (B::nat)" and "k < n"
  shows "b * n + k < B * n"
proof -
  have "b * n + k < Suc b * n" using assms by simp
  also have "\<dots> \<le> B * n" using assms by (intro mult_le_mono1) simp
  finally show ?thesis .
qed

lemma slice_length:
  assumes "a < B" and "c < P" and "length xs = B * P * F"
  shows "length (take F (drop ((a * P + c) * F) xs)) = F"
proof -
  have "Suc (a * P + c) \<le> B * P" using flat_index_less[OF assms(1,2)] by simp
  then have "Suc (a * P + c) * F \<le> B * P * F" by (intro mult_le_mono1)
  then show ?thesis using assms(3) by simp
qed

lemma vec_at_gathered:
  assumes X: "shape X = [B, P, F]" and wf: "length (data X) = B * P * F"
    and len: "length pd = B * n" and inb: "list_all (in_bounds P) pd"
    and b: "b < B" and k: "k < n"
  shows "vec_at \<lparr>shape = [B, n, F],
            data = concat (map (\<lambda>(i, j).
                     take F (drop ((wrap_index B i * P + wrap_index P j) * F) (data X)))
                   (zip (concat (map (replicate n) (map int [0..<B]))) pd))\<rparr> b k
         = vec_at X b (wrap_index P (pd ! (b * n + k)))"
proof -
  let ?bi = "concat (map (replicate n) (map int [0..<B]))"
  let ?g = "\<lambda>(i, j). take F (drop ((wrap_index B i * P + wrap_index P j) * F) (data X))"
  have lbi: "length ?bi = B * n"
    using length_concat_replicate[of n "map int [0..<B]"] by simp
  have idx: "b * n + k < B * n" by (rule flat_index_less[OF b k])
  have uni: "\<forall>v\<in>set (map ?g (zip ?bi pd)). length v = F"
  proof
    fix v assume "v \<in> set (map ?g (zip ?bi pd))"
    then obtain i j where ij: "(i, j) \<in> set (zip ?bi pd)" and v: "v = ?g (i, j)" by auto
    from ij have "i \<in> set ?bi" and "j \<in> set pd" by (auto dest: set_zip_leftD set_zip_rightD)
    then have "wrap_index B i < B" and "wrap_index P j < P"
      using batch_idx_in_bounds inb by (auto simp add: list_all_iff intro: wrap_index_less)
    then show "length v = F" unfolding v using slice_length[OF _ _ wf] by simp
  qed
  have bi_nth: "?bi ! (b * n + k) = int b"
    using nth_concat_replicate[of b "map int [0..<B]" k n] b k by simp
  have "vec_at \<lparr>shape = [B, n, F], data = concat (map ?g (zip ?bi pd))\<rparr> b k
          = take F (drop ((b * n + k) * F) (concat (map ?g (zip ?bi pd))))"
    by (simp add: vec_at_def)
  also have "\<dots> = map ?g (zip ?bi pd) ! (b * n + k)"
    using uni idx lbi len by (intro take_drop_concat_uniform) simp_all
  also have "\<dots> = ?g (int b, pd ! (b * n + k))"
    using idx lbi len bi_nth by simp
  also have "\<dots> = vec_at X b (wrap_index P (pd ! (b * n + k)))"
    using X by (simp add: vec_at_def wrap_index_def)
  finally show ?thesis .
qed

section \<open>The layers on the vectors of the last axis\<close>

lemma rows_length:
  assumes "shape t = s @ [d]" and "length (data t) = prod_list s * d" and "v \<in> set (rows t)"
  shows "length v = d"
proof -
  from assms(1,3) obtain i where i: "i < prod_list s" and v: "v = take d (drop (i * d) (data t))"
    by (auto simp add: rows_def)
  from i have "Suc i * d \<le> prod_list s * d" by (intro mult_le_mono1) simp
  then show ?thesis using assms(2) v by simp
qed

lemma rows_concat:
  assumes "\<forall>v\<in>set xss. length v = d" and "length xss = prod_list s"
  shows "rows \<lparr>shape = s @ [d], data = concat xss\<rparr> = xss"
proof -
  have "rows \<lparr>shape = s @ [d], data = concat xss\<rparr>
          = map (\<lambda>i. take d (drop (i * d) (concat xss))) [0..<length xss]"
    using assms(2) by (simp add: rows_def)
  also have "\<dots> = map (\<lambda>i. xss ! i) [0..<length xss]"
    using take_drop_concat_uniform[OF assms(1)] by (intro map_cong) simp_all
  also have "\<dots> = xss" by (rule map_nth)
  finally show ?thesis .
qed

lemma length_rows: "length (rows t) = prod_list (butlast (shape t))"
  by (simp add: rows_def Let_def)

lemma rows_map_rows:
  assumes "\<forall>v\<in>set (rows t). length (f v) = d"
  shows "rows (map_rows f d t) = map f (rows t)"
  unfolding map_rows_def using assms
  by (intro rows_concat) (simp_all add: length_rows)

lemma rows_ReLU: "rows (ReLU t) = map (map (max 0)) (rows t)"
  by (simp add: rows_def ReLU_def Let_def take_map drop_map)

lemma length_linear_vec: "Linear_ok n_in n_out l \<Longrightarrow> length (linear_vec l x) = n_out"
  by (simp add: linear_vec_def Linear_ok_def)

lemma length_layer_norm_vec:
  "length (ln_weight nl) = length x \<Longrightarrow> length (ln_bias nl) = length x \<Longrightarrow>
     length (layer_norm_vec nl x) = length x"
  by (simp add: layer_norm_vec_def Let_def)

lemma mlp_result:
  assumes m: "MaskLM_init V H F m" and sh: "shape t = s @ [F]"
    and wf: "length (data t) = prod_list s * F"
  shows "mlp m t = Inr \<lparr>shape = s @ [V], data = concat (map (mlp_vec m) (rows t))\<rparr>"
proof -
  from m have l0: "Linear_ok F H (mlp_0 m)" and l3: "Linear_ok H V (mlp_3 m)"
    and ns: "normalized_shape (mlp_2 m) = H"
    and lw: "length (ln_weight (mlp_2 m)) = H" and lb: "length (ln_bias (mlp_2 m)) = H"
    by (simp_all add: MaskLM_init_def)
  define h0 where "h0 = map_rows (linear_vec (mlp_0 m)) H t"
  define h1 where "h1 = ReLU h0"
  define h2 where "h2 = map_rows (layer_norm_vec (mlp_2 m)) H h1"
  have s0: "Linear_forward (mlp_0 m) t = Inr h0"
    using l0 sh by (simp add: Linear_forward_def Linear_ok_def h0_def)
  have sh0: "shape h0 = s @ [H]" using sh by (simp add: h0_def map_rows_def)
  have r0: "rows h0 = map (linear_vec (mlp_0 m)) (rows t)"
    unfolding h0_def using length_linear_vec[OF l0] by (intro rows_map_rows) simp
  have sh1: "shape h1 = s @ [H]" using sh0 by (simp add: h1_def ReLU_def)
  have r1: "rows h1 = map (\<lambda>v. map (max 0) (linear_vec (mlp_0 m) v)) (rows t)"
    by (simp add: h1_def rows_ReLU r0)
  have len1: "\<forall>v\<in>set (rows h1). length v = H"
    using length_linear_vec[OF l0] by (simp add: r1)
  have s2: "LayerNorm_forward (mlp_2 m) h1 = Inr h2"
    using sh1 ns by (simp add: LayerNorm_forward_def h2_def)
  have sh2: "shape h2 = s @ [H]" using sh1 by (simp add: h2_def map_rows_def)
  have r2: "rows h2 = map (layer_norm_vec (mlp_2 m)) (rows h1)"
    unfolding h2_def using len1 lw lb
    by (intro rows_map_rows) (simp add: length_layer_norm_vec)
  have s3: "Linear_forward (mlp_3 m) h2
              = Inr \<lparr>shape = s @ [V], data = concat (map (linear_vec (mlp_3 m)) (rows h2))\<rparr>"
    using l3 sh2 by (simp add: Linear_forward_def Linear_ok_def map_rows_def)
  have "map (linear_vec (mlp_3 m)) (rows h2) = map (mlp_vec m) (rows t)"
    by (simp add: r2 r1 mlp_vec_def)
  with s0 s2 s3 show ?thesis by (simp add: mlp_def h1_def)
qed

section \<open>The result of the gather and of \<open>forward\<close>\<close>

lemma rows_nth_vec_at:
  assumes "shape t = [B, n, F]" and "b < B" and "k < n"
  shows "rows t ! (b * n + k) = vec_at t b k"
  using assms flat_index_less[OF assms(2,3)]
  by (simp add: rows_def vec_at_def Let_def)

lemma vec_at_concat:
  assumes "\<forall>v\<in>set xss. length v = d" and "length xss = B * n" and "b < B" and "k < n"
  shows "vec_at \<lparr>shape = [B, n, d], data = concat xss\<rparr> b k = xss ! (b * n + k)"
  using take_drop_concat_uniform[OF assms(1), of "b * n + k"] flat_index_less[OF assms(3,4)] assms(2)
  by (simp add: vec_at_def)

lemma gathered_uniform:
  assumes wf: "length (data X) = B * P * F" and inb: "list_all (in_bounds P) pd"
  shows "\<forall>v\<in>set (map (\<lambda>(i, j).
            take F (drop ((wrap_index B i * P + wrap_index P j) * F) (data X)))
          (zip (concat (map (replicate n) (map int [0..<B]))) pd)). length v = F"
proof
  let ?bi = "concat (map (replicate n) (map int [0..<B]))"
  let ?g = "\<lambda>(i, j). take F (drop ((wrap_index B i * P + wrap_index P j) * F) (data X))"
  fix v assume "v \<in> set (map ?g (zip ?bi pd))"
  then obtain i j where ij: "(i, j) \<in> set (zip ?bi pd)" and v: "v = ?g (i, j)" by auto
  from ij have "i \<in> set ?bi" and "j \<in> set pd" by (auto dest: set_zip_leftD set_zip_rightD)
  then have "wrap_index B i < B" and "wrap_index P j < P"
    using batch_idx_in_bounds inb by (auto simp add: list_all_iff intro: wrap_index_less)
  then show "length v = F" unfolding v using slice_length[OF _ _ wf] by simp
qed

lemma masked_X_ok:
  assumes X: "shape X = [B, P, F]" and wf: "length (data X) = B * P * F"
    and pp: "shape pp = [B, n]" and len: "length (data pp) = B * n"
    and B: "0 < B" and n: "0 < n" and inb: "list_all (in_bounds P) (data pp)"
  obtains M where "masked_X X pp = Inr M" and "shape M = [B, n, F]"
    and "length (data M) = B * n * F"
    and "\<And>b k. b < B \<Longrightarrow> k < n \<Longrightarrow>
           vec_at M b k = vec_at X b (wrap_index P (pos_at pp b k))"
proof -
  let ?bi = "concat (map (replicate n) (map int [0..<B]))"
  let ?g = "\<lambda>(i, j). take F (drop ((wrap_index B i * P + wrap_index P j) * F) (data X))"
  let ?M = "\<lparr>shape = [B, n, F], data = concat (map ?g (zip ?bi (data pp)))\<rparr>"
  have lbi: "length ?bi = B * n"
    using length_concat_replicate[of n "map int [0..<B]"] by simp
  have r: "masked_X X pp = Inr ?M"
    using masked_X_matched[OF X pp len] B n inb by simp
  have uni: "\<forall>v\<in>set (map ?g (zip ?bi (data pp))). length v = F"
    by (rule gathered_uniform[OF wf inb])
  have l: "length (data ?M) = B * n * F"
    using length_concat_uniform[OF uni] lbi len by simp
  have v: "vec_at ?M b k = vec_at X b (wrap_index P (pos_at pp b k))" if "b < B" "k < n" for b k
    using vec_at_gathered[OF X wf len inb that] pp by (simp add: pos_at_def)
  from r l v show ?thesis by (intro that[of ?M]) simp_all
qed

lemma forward_ok:
  assumes m: "MaskLM_init V H F m"
    and X: "shape X = [B, P, F]" and wf: "length (data X) = B * P * F"
    and pp: "shape pp = [B, n]" and len: "length (data pp) = B * n"
    and B: "0 < B" and n: "0 < n" and inb: "list_all (in_bounds P) (data pp)"
  obtains Y where "forward m X pp = Inr Y" and "shape Y = [B, n, V]"
    and "length (data Y) = B * n * V"
    and "\<And>b k. b < B \<Longrightarrow> k < n \<Longrightarrow>
           vec_at Y b k = mlp_vec m (vec_at X b (wrap_index P (pos_at pp b k)))"
proof -
  from masked_X_ok[OF X wf pp len B n inb] obtain M where
    M: "masked_X X pp = Inr M" and shM: "shape M = [B, n, F]"
    and lM: "length (data M) = B * n * F"
    and vM: "\<And>b k. b < B \<Longrightarrow> k < n \<Longrightarrow>
           vec_at M b k = vec_at X b (wrap_index P (pos_at pp b k))"
    by blast
  let ?Y = "\<lparr>shape = [B, n, V], data = concat (map (mlp_vec m) (rows M))\<rparr>"
  have shM': "shape M = [B, n] @ [F]" using shM by simp
  have lM': "length (data M) = prod_list [B, n] * F" using lM by simp
  have mlp: "mlp m M = Inr ?Y"
    using mlp_result[OF m shM' lM'] by simp
  have rl: "\<forall>v\<in>set (rows M). length v = F"
    using rows_length[OF shM' lM'] by blast
  from m have l0: "Linear_ok F H (mlp_0 m)" and l3: "Linear_ok H V (mlp_3 m)"
    by (simp_all add: MaskLM_init_def)
  have uni: "\<forall>v\<in>set (map (mlp_vec m) (rows M)). length v = V"
    using length_linear_vec[OF l3] by (simp add: mlp_vec_def)
  have lr: "length (map (mlp_vec m) (rows M)) = B * n"
    using shM by (simp add: length_rows)
  have lY: "length (data ?Y) = B * n * V"
    using length_concat_uniform[OF uni] lr by simp
  have vY: "vec_at ?Y b k = mlp_vec m (vec_at X b (wrap_index P (pos_at pp b k)))"
    if "b < B" "k < n" for b k
  proof -
    have "vec_at ?Y b k = map (mlp_vec m) (rows M) ! (b * n + k)"
      by (rule vec_at_concat[OF uni lr that])
    also have "\<dots> = mlp_vec m (rows M ! (b * n + k))"
      using flat_index_less[OF that] lr by simp
    also have "\<dots> = mlp_vec m (vec_at M b k)"
      by (simp add: rows_nth_vec_at[OF shM that])
    finally show ?thesis by (simp add: vM[OF that])
  qed
  have "forward m X pp = Inr ?Y" by (simp add: forward_def M mlp)
  with lY vY show ?thesis by (intro that[of ?Y]) simp_all
qed

section \<open>One batch element at a time\<close>

lemma chunks_concat:
  "length ys = n * d \<Longrightarrow> concat (map (\<lambda>k. take d (drop (k * d) ys)) [0..<n]) = ys"
proof (induction n arbitrary: ys)
  case 0
  then show ?case by simp
next
  case (Suc n)
  have "[0..<Suc n] = 0 # map Suc [0..<n]"
    by (simp add: upt_conv_Cons map_Suc_upt del: upt_Suc)
  then have "concat (map (\<lambda>k. take d (drop (k * d) ys)) [0..<Suc n])
               = take d ys @ concat (map (\<lambda>k. take d (drop (k * d) (drop d ys))) [0..<n])"
    by (simp add: comp_def add.commute del: upt_Suc)
  also have "concat (map (\<lambda>k. take d (drop (k * d) (drop d ys))) [0..<n]) = drop d ys"
    using Suc.prems by (intro Suc.IH) simp
  finally show ?case by simp
qed

lemma vec_at_batch:
  assumes "shape t = [B, P, F]" and "k < P"
  shows "vec_at t b k = take F (drop (k * F) (batch_at t b))"
proof -
  have "Suc k * F \<le> P * F" using assms(2) by (intro mult_le_mono1) simp
  then have m: "min F (P * F - k * F) = F" by simp
  have e: "k * F + b * (P * F) = (b * P + k) * F" by (simp add: algebra_simps)
  show ?thesis
    using assms(1) by (simp add: vec_at_def batch_at_def Let_def drop_take m e)
qed

lemma length_batch_at:
  assumes "shape t = [B, n, d]" and "length (data t) = B * n * d" and "b < B"
  shows "length (batch_at t b) = n * d"
proof -
  have "Suc b * (n * d) \<le> B * (n * d)" using assms(3) by (intro mult_le_mono1) simp
  then show ?thesis using assms(1,2) by (simp add: batch_at_def Let_def mult.assoc)
qed

lemma batch_at_chunks:
  assumes "shape t = [B, n, d]" and "length (data t) = B * n * d" and "b < B"
  shows "batch_at t b = concat (map (vec_at t b) [0..<n])"
proof -
  have eq: "map (vec_at t b) [0..<n] = map (\<lambda>k. take d (drop (k * d) (batch_at t b))) [0..<n]"
    using vec_at_batch[OF assms(1)] by (intro map_cong) simp_all
  show ?thesis
    unfolding eq by (rule chunks_concat[OF length_batch_at[OF assms], symmetric])
qed

lemma pos_at_batch:
  assumes "shape p = [B, n]" and "length (data p) = B * n" and "b < B" and "k < n"
  shows "pos_at p b k = batch_at p b ! k"
proof -
  have "b * n + k < B * n" by (rule flat_index_less[OF assms(3,4)])
  then show ?thesis using assms by (simp add: pos_at_def batch_at_def Let_def add.commute)
qed

lemma pos_at_in_set:
  assumes "shape p = [B, n]" and "length (data p) = B * n" and "b < B" and "k < n"
  shows "pos_at p b k \<in> set (data p)"
  using flat_index_less[OF assms(3,4)] assms(1,2) by (simp add: pos_at_def)

lemma forward_Inr_matched:
  assumes "shape X = [B, P, F]" and "shape pp = [B, n]" and "length (data pp) = B * n"
    and "forward m X pp = Inr Y"
  shows "0 < B \<and> 0 < n \<and> list_all (in_bounds P) (data pp)"
  using assms(4) masked_X_matched[OF assms(1-3)]
  by (auto simp add: forward_def split: if_splits)

lemma batch_row_independent:
  assumes m: "MaskLM_init V H F m"
    and X: "shape X = [B, P, F]" "length (data X) = B * P * F"
    and X': "shape X' = [B, P, F]" "length (data X') = B * P * F"
    and pp: "shape pp = [B, n]" "length (data pp) = B * n"
    and pp': "shape pp' = [B, n]" "length (data pp') = B * n"
    and b: "b < B"
    and eqX: "batch_at X b = batch_at X' b"
    and eqP: "batch_at pp b = batch_at pp' b"
    and Y: "forward m X pp = Inr Y" and Y': "forward m X' pp' = Inr Y'"
  shows "batch_at Y b = batch_at Y' b"
proof -
  from forward_Inr_matched[OF X(1) pp Y]
  have B: "0 < B" and n: "0 < n" and inb: "list_all (in_bounds P) (data pp)" by simp_all
  from forward_Inr_matched[OF X'(1) pp' Y']
  have inb': "list_all (in_bounds P) (data pp')" by simp
  from forward_ok[OF m X pp B n inb] Y
  have shY: "shape Y = [B, n, V]" and lY: "length (data Y) = B * n * V"
    and vY: "\<And>k. k < n \<Longrightarrow>
           vec_at Y b k = mlp_vec m (vec_at X b (wrap_index P (pos_at pp b k)))"
    using b by (metis sum.inject(2))+
  from forward_ok[OF m X' pp' B n inb'] Y'
  have shY': "shape Y' = [B, n, V]" and lY': "length (data Y') = B * n * V"
    and vY': "\<And>k. k < n \<Longrightarrow>
           vec_at Y' b k = mlp_vec m (vec_at X' b (wrap_index P (pos_at pp' b k)))"
    using b by (metis sum.inject(2))+
  have "vec_at Y b k = vec_at Y' b k" if k: "k < n" for k
  proof -
    have p: "pos_at pp b k = pos_at pp' b k"
      by (simp add: pos_at_batch[OF pp b k] pos_at_batch[OF pp' b k] eqP)
    have "in_bounds P (pos_at pp b k)"
      using pos_at_in_set[OF pp b k] inb by (simp add: list_all_iff)
    then have "wrap_index P (pos_at pp b k) < P" by (rule wrap_index_less)
    then have "vec_at X b (wrap_index P (pos_at pp b k))
                 = vec_at X' b (wrap_index P (pos_at pp b k))"
      by (simp add: vec_at_batch[OF X(1)] vec_at_batch[OF X'(1)] eqX)
    then show ?thesis by (simp add: vY[OF k] vY'[OF k] p)
  qed
  then have meq: "map (vec_at Y b) [0..<n] = map (vec_at Y' b) [0..<n]"
    by (intro map_cong) simp_all
  show ?thesis
    by (simp only: batch_at_chunks[OF shY lY b] batch_at_chunks[OF shY' lY' b] meq)
qed

section \<open>Batch dimensions that differ\<close>

lemma list_all_zip:
  "\<forall>x\<in>set xs. Q x \<Longrightarrow> \<forall>y\<in>set ys. R y \<Longrightarrow> list_all (\<lambda>(i, j). Q i \<and> R j) (zip xs ys)"
  by (auto simp add: list_all_iff dest: set_zip_leftD set_zip_rightD)

lemma masked_X_pairs:
  assumes X: "shape X = [B, P, F]" and pp: "shape pp = [B', n]"
    and bc: "broadcast_indices (concat (map (replicate n) (map int [0..<B]))) (data pp) = Inr pairs"
    and ok: "list_all (\<lambda>(i, j). in_bounds B i \<and> in_bounds P j) pairs"
  shows "(\<exists>M. masked_X X pp = Inr M) \<longleftrightarrow> 0 < B * n \<and> (length pairs * F) mod (B * n) = 0"
  unfolding masked_X_unfold[OF X pp] bc sum.case reshape_gathered using ok by simp

lemma masked_X_success_iff:
  assumes X: "shape X = [B, P, F]" and pp: "shape pp = [B', n]"
    and len: "length (data pp) = B' * n" and inb: "list_all (in_bounds P) (data pp)"
  shows "(\<exists>M. masked_X X pp = Inr M)
           \<longleftrightarrow> 0 < B \<and> 0 < n \<and> (B' = B \<or> (n = 1 \<and> (B = 1 \<or> B' = 1)))"
proof -
  let ?bi = "concat (map (replicate n) (map int [0..<B]))"
  let ?pd = "data pp"
  have lbi: "length ?bi = B * n"
    using length_concat_replicate[of n "map int [0..<B]"] by simp
  have bi_ok: "\<forall>x\<in>set ?bi. in_bounds B x" using batch_idx_in_bounds by blast
  have pd_ok: "\<forall>y\<in>set ?pd. in_bounds P y" using inb by (simp add: list_all_iff)
  consider (same) "B * n = B' * n"
    | (left) "B * n \<noteq> B' * n" "B * n = 1"
    | (right) "B * n \<noteq> B' * n" "B * n \<noteq> 1" "B' * n = 1"
    | (clash) "B * n \<noteq> B' * n" "B * n \<noteq> 1" "B' * n \<noteq> 1"
    by blast
  then show ?thesis
  proof cases
    case same
    then have leq: "length ?bi = length ?pd" using lbi len by simp
    then have bc: "broadcast_indices ?bi ?pd = Inr (zip ?bi ?pd)"
      unfolding broadcast_indices_def by (rule if_P)
    have ok: "list_all (\<lambda>(i, j). in_bounds B i \<and> in_bounds P j) (zip ?bi ?pd)"
      by (rule list_all_zip[OF bi_ok pd_ok])
    have L: "length (zip ?bi ?pd) = B * n" unfolding length_zip leq[symmetric] lbi by simp
    from same have d: "B' = B \<or> n = 0" by auto
    show ?thesis
      unfolding masked_X_pairs[OF X pp bc ok] L using d by auto
  next
    case left
    then have B1: "B = 1" and n1: "n = 1" by simp_all
    have "?bi = [0]" by (simp add: B1 n1)
    then have hd0: "hd ?bi = 0" by simp
    have bc: "broadcast_indices ?bi ?pd = Inr (zip (replicate (length ?pd) (hd ?bi)) ?pd)"
      using lbi len left by (simp add: broadcast_indices_def)
    have "\<forall>x\<in>set (replicate (length ?pd) (hd ?bi)). in_bounds B x"
      unfolding hd0 by (simp add: B1 in_bounds_def)
    then have ok: "list_all (\<lambda>(i, j). in_bounds B i \<and> in_bounds P j)
                     (zip (replicate (length ?pd) (hd ?bi)) ?pd)"
      by (rule list_all_zip[OF _ pd_ok])
    show ?thesis
      unfolding masked_X_pairs[OF X pp bc ok] by (simp add: B1 n1)
  next
    case right
    then have B'1: "B' = 1" and n1: "n = 1" by simp_all
    from len have "length ?pd = 1" by (simp add: B'1 n1)
    then obtain p where pd: "?pd = [p]" by (cases ?pd) simp_all
    have bc: "broadcast_indices ?bi ?pd = Inr (zip ?bi (replicate (length ?bi) (hd ?pd)))"
      using lbi len right by (simp add: broadcast_indices_def)
    have "\<forall>y\<in>set (replicate (length ?bi) (hd ?pd)). in_bounds P y"
      using pd_ok by (simp add: pd)
    then have ok: "list_all (\<lambda>(i, j). in_bounds B i \<and> in_bounds P j)
                     (zip ?bi (replicate (length ?bi) (hd ?pd)))"
      by (rule list_all_zip[OF bi_ok])
    have L: "length (zip ?bi (replicate (length ?bi) (hd ?pd))) = B" using lbi n1 by simp
    show ?thesis
      unfolding masked_X_pairs[OF X pp bc ok] L by (simp add: B'1 n1)
  next
    case clash
    then have bc: "broadcast_indices ?bi ?pd = Inl IndexError"
      using lbi len by (simp add: broadcast_indices_def)
    have "masked_X X pp = Inl IndexError"
      unfolding masked_X_unfold[OF X pp] bc by simp
    moreover have "\<not> (0 < B \<and> 0 < n \<and> (B' = B \<or> (n = 1 \<and> (B = 1 \<or> B' = 1))))"
      using clash by auto
    ultimately show ?thesis by simp
  qed
qed

lemma masked_X_needs_2d:
  "length (shape pp) < 2 \<Longrightarrow> masked_X X pp = Inl IndexError"
  by (simp add: masked_X_def shape_at_def)

section \<open>Evaluating the examples\<close>

lemma mlm_small_init: "MaskLM_init 1 2 1 mlm_small"
  by (simp add: MaskLM_init_def Linear_ok_def mlm_small_def)

lemma sqrt_eps: "sqrt (121 / 4000000) = 11 / 2000"
  by (rule real_sqrt_unique) (simp_all add: power2_eq_square)

lemmas eval_masked_X = masked_X_def shape_at_def reshape_def infer_size_def numel_def arange_def
  repeat_interleave_def index2_def broadcast_indices_def in_bounds_def wrap_index_def
  Let_def upt_rec

lemmas eval_mlp = mlp_def Linear_forward_def LayerNorm_forward_def ReLU_def map_rows_def rows_def
  mlm_small_def linear_vec_def layer_norm_vec_def Let_def power2_eq_square sqrt_eps upt_rec

section \<open>Properties of the sequence formatter\<close>

text \<open>
  Claim C1. With only the first list given, the result is the token list
  \<open>['<cls>'] + A + ['<sep>']\<close> and \<open>len(A)+2\<close> zeros; the output has length \<open>len(A)+2\<close>,
  starts with the CLS marker, ends with the SEP marker, every segment id is 0, and the
  empty list gives exactly \<open>(['<cls>','<sep>'], [0,0])\<close>.
\<close>

theorem C1_single_sequence:
  "get_tokens_and_segments A None =
     ([''<cls>''] @ A @ [''<sep>''], replicate (length A + 2) 0)
   \<and> length (fst (get_tokens_and_segments A None)) = length A + 2
   \<and> length (snd (get_tokens_and_segments A None)) = length A + 2
   \<and> hd (fst (get_tokens_and_segments A None)) = ''<cls>''
   \<and> last (fst (get_tokens_and_segments A None)) = ''<sep>''
   \<and> set (snd (get_tokens_and_segments A None)) = {0}
   \<and> get_tokens_and_segments [] None = ([''<cls>'', ''<sep>''], [0, 0])"
  by (auto simp add: get_tokens_and_segments_def)

text \<open>
  Claim C2. With both lists given, the tokens are
  \<open>['<cls>'] + A + ['<sep>'] + B + ['<sep>']\<close> and the segment ids are \<open>len(A)+2\<close> zeros
  followed by \<open>len(B)+1\<close> ones; the output length is \<open>len(A)+len(B)+3\<close>; the example
  \<open>A = ["the","cat"]\<close>, \<open>B = ["sat","down"]\<close> gives the seven tokens of the specification
  with segments \<open>[0,0,0,0,1,1,1]\<close>.
\<close>

theorem C2_sequence_pair:
  "get_tokens_and_segments A (Some B) =
     ([''<cls>''] @ A @ [''<sep>''] @ B @ [''<sep>''],
      replicate (length A + 2) 0 @ replicate (length B + 1) 1)
   \<and> length (fst (get_tokens_and_segments A (Some B))) = length A + length B + 3
   \<and> take (length A + 2) (snd (get_tokens_and_segments A (Some B)))
       = replicate (length A + 2) 0
   \<and> drop (length A + 2) (snd (get_tokens_and_segments A (Some B)))
       = replicate (length B + 1) 1
   \<and> get_tokens_and_segments [''the'', ''cat''] (Some [''sat'', ''down'']) =
       ([''<cls>'', ''the'', ''cat'', ''<sep>'', ''sat'', ''down'', ''<sep>''],
        [0, 0, 0, 0, 1, 1, 1])"
  by (simp add: get_tokens_and_segments_def numeral_eq_Suc)

text \<open>
  Claim C5. Whatever the first list and whether or not a second list is present, the
  returned token list and the returned segment-id list have the same length.
\<close>

theorem C5_same_length:
  "length (fst (get_tokens_and_segments A B)) = length (snd (get_tokens_and_segments A B))"
  by (cases B) (simp_all add: get_tokens_and_segments_def)

text \<open>
  Claim C7. The formatter is not idempotent: formatting the token output of a first
  application again gives \<open>['<cls>','<cls>'] + A + ['<sep>','<sep>']\<close>, of length
  \<open>len(A)+4\<close>, which is strictly longer than, and different from, the single application.
\<close>

theorem C7_not_idempotent:
  "fst (get_tokens_and_segments (fst (get_tokens_and_segments A None)) None)
     = [''<cls>'', ''<cls>''] @ A @ [''<sep>'', ''<sep>'']
   \<and> length (fst (get_tokens_and_segments (fst (get_tokens_and_segments A None)) None))
       = length A + 4
   \<and> length (fst (get_tokens_and_segments A None))
       < length (fst (get_tokens_and_segments (fst (get_tokens_and_segments A None)) None))
   \<and> get_tokens_and_segments (fst (get_tokens_and_segments A None)) None
       \<noteq> get_tokens_and_segments A None"
  by (simp add: get_tokens_and_segments_def)

text \<open>
  Claim C8. An empty second list is not the absent second list: with \<open>[]\<close> the tokens end
  in two consecutive SEP markers and the segment ids are \<open>len(A)+2\<close> zeros followed by a
  single 1, whereas with \<open>None\<close> the tokens stop after the first SEP marker and no segment
  id is 1; the two results differ.
\<close>

theorem C8_empty_second_is_not_None:
  "get_tokens_and_segments A (Some []) =
     ([''<cls>''] @ A @ [''<sep>'', ''<sep>''], replicate (length A + 2) 0 @ [1])
   \<and> get_tokens_and_segments A None =
     ([''<cls>''] @ A @ [''<sep>''], replicate (length A + 2) 0)
   \<and> 1 \<notin> set (snd (get_tokens_and_segments A None))
   \<and> get_tokens_and_segments A (Some []) \<noteq> get_tokens_and_segments A None"
  by (simp add: get_tokens_and_segments_def)

section \<open>Properties of \<open>MaskLM.forward\<close>\<close>

text \<open>
  Claim C3, as amended. For a hidden-state tensor \<open>X\<close> of shape
  \<open>(batch, positions, features)\<close> and prediction positions of shape
  \<open>(batch, num_predictions)\<close> with \<open>batch \<ge> 1\<close>, \<open>num_predictions \<ge> 1\<close> and every position
  in \<open>0 \<le> p < positions\<close>, the tensor handed to the MLP exists, has shape
  \<open>(batch, num_predictions, features)\<close>, and its vector at \<open>(b, k)\<close> is exactly
  \<open>X[b, P[b][k]]\<close>, in the order of the batch elements and of the requested positions.
\<close>

theorem C3_gathered_vectors:
  assumes "shape X = [B, P, F]" and "length (data X) = B * P * F"
    and "shape pp = [B, n]" and "length (data pp) = B * n"
    and "0 < B" and "0 < n"
    and "list_all (\<lambda>p. 0 \<le> p \<and> p < int P) (data pp)"
  shows "\<exists>M. masked_X X pp = Inr M \<and> shape M = [B, n, F] \<and> length (data M) = B * n * F
           \<and> (\<forall>b<B. \<forall>k<n. vec_at M b k = vec_at X b (nat (pos_at pp b k)))"
proof -
  have inb: "list_all (in_bounds P) (data pp)"
    using assms(7) by (auto simp add: list_all_iff in_bounds_def)
  from masked_X_ok[OF assms(1-6) inb] obtain M where
    M: "masked_X X pp = Inr M" "shape M = [B, n, F]" "length (data M) = B * n * F"
    and v: "\<And>b k. b < B \<Longrightarrow> k < n \<Longrightarrow>
           vec_at M b k = vec_at X b (wrap_index P (pos_at pp b k))"
    by blast
  have "vec_at M b k = vec_at X b (nat (pos_at pp b k))" if "b < B" "k < n" for b k
  proof -
    have "0 \<le> pos_at pp b k"
      using pos_at_in_set[OF assms(3,4) that] assms(7) by (auto simp add: list_all_iff)
    then show ?thesis using v[OF that] by (simp add: wrap_index_nonneg)
  qed
  with M show ?thesis by blast
qed

text \<open>The theorem at a tensor of shape \<open>(2, 3, 2)\<close> and the positions \<open>[[0, 2], [1, 1]]\<close>.\<close>

theorem C3_gathered_vectors_witness:
  "\<exists>M. masked_X \<lparr>shape = [2, 3, 2], data = [1, 2, 3, 4, 5, 6, 7, 8, 9, 10, 11, 12 :: real]\<rparr>
            \<lparr>shape = [2, 2], data = [0, 2, 1, 1]\<rparr> = Inr M
       \<and> shape M = [2, 2, 2]
       \<and> vec_at M 0 0 = [1, 2] \<and> vec_at M 0 1 = [5, 6]
       \<and> vec_at M 1 0 = [9, 10] \<and> vec_at M 1 1 = [9, 10]"
proof -
  let ?X = "\<lparr>shape = [2, 3, 2], data = [1, 2, 3, 4, 5, 6, 7, 8, 9, 10, 11, 12 :: real]\<rparr>"
  let ?pp = "\<lparr>shape = [2, 2], data = [0, 2, 1, 1 :: int]\<rparr>"
  from C3_gathered_vectors[of ?X 2 3 2 ?pp 2] obtain M where
    M: "masked_X ?X ?pp = Inr M" "shape M = [2, 2, 2]"
    and v: "\<forall>b<2. \<forall>k<2. vec_at M b k = vec_at ?X b (nat (pos_at ?pp b k))"
    by auto
  have "vec_at M 0 0 = [1, 2]" "vec_at M 0 1 = [5, 6]"
    "vec_at M 1 0 = [9, 10]" "vec_at M 1 1 = [9, 10]"
    using v by (simp_all add: vec_at_def pos_at_def)
  with M show ?thesis by blast
qed

text \<open>
  Claim C3 as first stated covers every shape \<open>(batch, num_predictions)\<close>. With no
  requested position (\<open>num_predictions = 0\<close>) the gather yields a tensor without
  elements, and the reshape to \<open>(batch_size, 0, -1)\<close> cannot infer its last dimension:
  the call raises \<open>RuntimeError\<close> and there is no gathered tensor.
\<close>

theorem C3_counterexample:
  "masked_X \<lparr>shape = [1, 1, 1], data = [0 :: real]\<rparr> \<lparr>shape = [1, 0], data = []\<rparr>
     = Inl RuntimeError"
  by (simp add: masked_X_def shape_at_def reshape_def infer_size_def numel_def arange_def
      repeat_interleave_def index2_def broadcast_indices_def)

text \<open>
  Claim C4, as amended. For a module built for \<open>vocab_size\<close> and \<open>num_hiddens\<close>, a
  hidden-state tensor of shape \<open>(batch, positions, features)\<close> and prediction positions
  of shape \<open>(batch, num_predictions)\<close> with \<open>batch \<ge> 1\<close>, \<open>num_predictions \<ge> 1\<close> and every
  position in \<open>0 \<le> p < positions\<close>, \<open>forward\<close> returns a tensor of shape
  \<open>(batch, num_predictions, vocab_size)\<close> whose vector at \<open>(b, k)\<close> is the gathered vector
  \<open>X[b, P[b][k]]\<close> sent through the linear projection to \<open>num_hiddens\<close>, the rectification,
  the normalisation over the feature axis and the linear projection to \<open>vocab_size\<close>.
\<close>

theorem C4_forward_shape:
  assumes "MaskLM_init vocab_size num_hiddens F m"
    and "shape X = [B, P, F]" and "length (data X) = B * P * F"
    and "shape pp = [B, n]" and "length (data pp) = B * n"
    and "0 < B" and "0 < n"
    and "list_all (\<lambda>p. 0 \<le> p \<and> p < int P) (data pp)"
  shows "\<exists>Y. forward m X pp = Inr Y \<and> shape Y = [B, n, vocab_size]
           \<and> length (data Y) = B * n * vocab_size
           \<and> (\<forall>b<B. \<forall>k<n. vec_at Y b k =
                 linear_vec (mlp_3 m)
                   (layer_norm_vec (mlp_2 m)
                      (map (max 0)
                         (linear_vec (mlp_0 m) (vec_at X b (nat (pos_at pp b k)))))))"
proof -
  have inb: "list_all (in_bounds P) (data pp)"
    using assms(8) by (auto simp add: list_all_iff in_bounds_def)
  from forward_ok[OF assms(1-7) inb] obtain Y where
    Y: "forward m X pp = Inr Y" "shape Y = [B, n, vocab_size]"
       "length (data Y) = B * n * vocab_size"
    and v: "\<And>b k. b < B \<Longrightarrow> k < n \<Longrightarrow>
           vec_at Y b k = mlp_vec m (vec_at X b (wrap_index P (pos_at pp b k)))"
    by blast
  have "vec_at Y b k = linear_vec (mlp_3 m) (layer_norm_vec (mlp_2 m)
          (map (max 0) (linear_vec (mlp_0 m) (vec_at X b (nat (pos_at pp b k))))))"
    if "b < B" "k < n" for b k
  proof -
    have "0 \<le> pos_at pp b k"
      using pos_at_in_set[OF assms(4,5) that] assms(8) by (auto simp add: list_all_iff)
    then show ?thesis using v[OF that] by (simp add: wrap_index_nonneg mlp_vec_def)
  qed
  with Y show ?thesis by blast
qed

text \<open>The example of the specification: a tensor of shape \<open>(2, 5, 16)\<close> and the positions
  \<open>[[1, 3], [0, 4]]\<close>, with a module whose vocabulary has three entries.\<close>

theorem C4_forward_shape_witness:
  "\<exists>Y. forward mlm_wide \<lparr>shape = [2, 5, 16], data = replicate 160 0\<rparr>
            \<lparr>shape = [2, 2], data = [1, 3, 0, 4]\<rparr> = Inr Y
       \<and> shape Y = [2, 2, 3] \<and> length (data Y) = 12"
proof -
  have m: "MaskLM_init 3 2 16 mlm_wide"
    by (simp add: MaskLM_init_def Linear_ok_def mlm_wide_def)
  from C4_forward_shape[OF m, of "\<lparr>shape = [2, 5, 16], data = replicate 160 0\<rparr>" 2 5
      "\<lparr>shape = [2, 2], data = [1, 3, 0, 4]\<rparr>" 2]
  show ?thesis by auto
qed

text \<open>
  Claim C4 as first stated promises a result for every shape
  \<open>(batch, num_predictions)\<close>. For a tensor of shape \<open>(2, 5, 16)\<close> and positions of shape
  \<open>(2, 0)\<close> the call raises \<open>RuntimeError\<close> in the reshape and returns no tensor.
\<close>

theorem C4_counterexample:
  "forward mlm_wide \<lparr>shape = [2, 5, 16], data = replicate 160 0\<rparr> \<lparr>shape = [2, 0], data = []\<rparr>
     = Inl RuntimeError"
  by (simp add: forward_def masked_X_def shape_at_def reshape_def infer_size_def numel_def
      arange_def repeat_interleave_def index2_def broadcast_indices_def)

text \<open>
  Claim C6. No cross-batch leakage: take two calls with the same module and the same
  shapes that both return. If the hidden states and the requested positions of batch
  element \<open>b\<close> agree, the outputs at batch index \<open>b\<close> agree, whatever the other batch
  elements hold. Moreover every output vector is the image of its own gathered vector
  under one and the same function, the composition of the four layers.
\<close>

theorem C6_no_cross_batch_leakage:
  assumes "MaskLM_init vocab_size num_hiddens F m"
    and "shape X = [B, P, F]" and "length (data X) = B * P * F"
    and "shape X' = [B, P, F]" and "length (data X') = B * P * F"
    and "shape pp = [B, n]" and "length (data pp) = B * n"
    and "shape pp' = [B, n]" and "length (data pp') = B * n"
    and "b < B"
    and "batch_at X b = batch_at X' b"
    and "batch_at pp b = batch_at pp' b"
    and "forward m X pp = Inr Y" and "forward m X' pp' = Inr Y'"
  shows "batch_at Y b = batch_at Y' b
         \<and> (\<exists>M. masked_X X pp = Inr M
               \<and> (\<forall>c<B. \<forall>k<n. vec_at Y c k = mlp_vec m (vec_at M c k)))"
proof -
  have same: "batch_at Y b = batch_at Y' b"
    using assms by (rule batch_row_independent)
  from forward_Inr_matched[OF assms(2,6,7,13)]
  have B: "0 < B" and n: "0 < n" and inb: "list_all (in_bounds P) (data pp)" by simp_all
  from masked_X_ok[OF assms(2,3,6,7) B n inb] obtain M where
    M: "masked_X X pp = Inr M"
    and vM: "\<And>c k. c < B \<Longrightarrow> k < n \<Longrightarrow>
           vec_at M c k = vec_at X c (wrap_index P (pos_at pp c k))"
    by blast
  from forward_ok[OF assms(1,2,3,6,7) B n inb] assms(13)
  have vY: "\<And>c k. c < B \<Longrightarrow> k < n \<Longrightarrow>
           vec_at Y c k = mlp_vec m (vec_at X c (wrap_index P (pos_at pp c k)))"
    by (metis sum.inject(2))
  have "\<forall>c<B. \<forall>k<n. vec_at Y c k = mlp_vec m (vec_at M c k)"
    by (simp add: vY vM)
  with same M show ?thesis by blast
qed

text \<open>Two calls that agree on batch element 0 and differ on batch element 1, in the
  hidden states and in the requested position: the outputs agree at index 0.\<close>

theorem C6_no_cross_batch_leakage_witness:
  "forward mlm_small \<lparr>shape = [2, 2, 1], data = [9 / 1000, 0, 0, 0]\<rparr>
             \<lparr>shape = [2, 1], data = [0, 0]\<rparr>
     = Inr \<lparr>shape = [2, 1, 1], data = [9 / 11, 0]\<rparr>
   \<and> forward mlm_small \<lparr>shape = [2, 2, 1], data = [9 / 1000, 0, 9 / 1000, - 1]\<rparr>
             \<lparr>shape = [2, 1], data = [0, - 2]\<rparr>
     = Inr \<lparr>shape = [2, 1, 1], data = [9 / 11, 9 / 11]\<rparr>
   \<and> batch_at \<lparr>shape = [2, 1, 1], data = [9 / 11, 0 :: real]\<rparr> 0
     = batch_at \<lparr>shape = [2, 1, 1], data = [9 / 11, 9 / 11 :: real]\<rparr> 0"
proof -
  let ?X = "\<lparr>shape = [2, 2, 1], data = [9 / 1000, 0, 0, 0 :: real]\<rparr>"
  let ?X' = "\<lparr>shape = [2, 2, 1], data = [9 / 1000, 0, 9 / 1000, - 1 :: real]\<rparr>"
  let ?pp = "\<lparr>shape = [2, 1], data = [0, 0 :: int]\<rparr>"
  let ?pp' = "\<lparr>shape = [2, 1], data = [0, - 2 :: int]\<rparr>"
  let ?Y = "\<lparr>shape = [2, 1, 1], data = [9 / 11, 0 :: real]\<rparr>"
  let ?Y' = "\<lparr>shape = [2, 1, 1], data = [9 / 11, 9 / 11 :: real]\<rparr>"
  have g: "masked_X ?X ?pp = Inr \<lparr>shape = [2, 1, 1], data = [9 / 1000, 0]\<rparr>"
    by (simp add: eval_masked_X)
  have g': "masked_X ?X' ?pp' = Inr \<lparr>shape = [2, 1, 1], data = [9 / 1000, 9 / 1000]\<rparr>"
    by (simp add: eval_masked_X)
  have Y: "forward mlm_small ?X ?pp = Inr ?Y"
    unfolding forward_def g sum.case by (simp add: eval_mlp)
  have Y': "forward mlm_small ?X' ?pp' = Inr ?Y'"
    unfolding forward_def g' sum.case by (simp add: eval_mlp)
  have "batch_at ?Y 0 = batch_at ?Y' 0"
    by (rule C6_no_cross_batch_leakage[OF mlm_small_init, of ?X 2 2 ?X' ?pp 1 ?pp' 0,
          OF _ _ _ _ _ _ _ _ _ _ _ Y Y', THEN conjunct1])
      (simp_all add: batch_at_def)
  with Y Y' show ?thesis by blast
qed

text \<open>
  Claim C9, as amended. Positions with fewer than two dimensions raise \<open>IndexError\<close>.
  For positions of shape \<open>(B', n)\<close> with every entry in \<open>-positions \<le> p < positions\<close> and
  a hidden-state tensor of shape \<open>(B, positions, features)\<close>, the gather and the final
  reshape return a tensor exactly when \<open>B \<ge> 1\<close>, \<open>n \<ge> 1\<close> and either \<open>B' = B\<close>, or \<open>n = 1\<close>
  and one of \<open>B\<close>, \<open>B'\<close> is 1: an index list with a single entry is broadcast against the
  other one. Every other mismatch of the batch dimensions raises.
\<close>

theorem C9_gather_reshape_precondition:
  assumes "shape X = [B, P, F]"
    and "shape pp = [B', n]" and "length (data pp) = B' * n"
    and "list_all (\<lambda>p. - int P \<le> p \<and> p < int P) (data pp)"
  shows "((\<exists>M. masked_X X pp = Inr M)
            \<longleftrightarrow> 0 < B \<and> 0 < n \<and> (B' = B \<or> (n = 1 \<and> (B = 1 \<or> B' = 1))))
         \<and> (length (shape q) < 2 \<longrightarrow> masked_X X q = Inl IndexError)"
proof -
  have inb: "list_all (in_bounds P) (data pp)"
    using assms(4) by (auto simp add: list_all_iff in_bounds_def)
  show ?thesis
    using masked_X_success_iff[OF assms(1-3) inb] masked_X_needs_2d[of q X] by blast
qed

text \<open>The theorem at a tensor of shape \<open>(2, 2, 1)\<close>: positions of shape \<open>(2, 1)\<close> are
  accepted, one-dimensional positions are not; positions of shape \<open>(3, 2)\<close> are rejected
  by the gather.\<close>

theorem C9_gather_reshape_precondition_witness:
  "(\<exists>M. masked_X \<lparr>shape = [2, 2, 1], data = [1, 2, 3, 4 :: real]\<rparr>
            \<lparr>shape = [2, 1], data = [0, 1]\<rparr> = Inr M)
   \<and> masked_X \<lparr>shape = [2, 2, 1], data = [1, 2, 3, 4 :: real]\<rparr>
            \<lparr>shape = [2], data = [0, 1]\<rparr> = Inl IndexError
   \<and> masked_X \<lparr>shape = [2, 2, 1], data = [1, 2, 3, 4 :: real]\<rparr>
            \<lparr>shape = [3, 2], data = [0, 1, 0, 1, 0, 1]\<rparr> = Inl IndexError"
proof -
  let ?X = "\<lparr>shape = [2, 2, 1], data = [1, 2, 3, 4 :: real]\<rparr>"
  have a: "\<exists>M. masked_X ?X \<lparr>shape = [2, 1], data = [0, 1]\<rparr> = Inr M"
    and c: "masked_X ?X \<lparr>shape = [2], data = [0, 1]\<rparr> = Inl IndexError"
    using C9_gather_reshape_precondition[of ?X 2 2 1 "\<lparr>shape = [2, 1], data = [0, 1]\<rparr>" 2 1
        "\<lparr>shape = [2], data = [0, 1]\<rparr>"]
    by simp_all
  have b: "masked_X ?X \<lparr>shape = [3, 2], data = [0, 1, 0, 1, 0, 1]\<rparr> = Inl IndexError"
    by (simp add: eval_masked_X)
  from a b c show ?thesis by blast
qed

text \<open>
  Claim C9 as first stated says that a mismatch of the batch dimensions makes the
  gather or the reshape fail. With three batch elements in \<open>X\<close> and positions of shape
  \<open>(1, 1)\<close> the single position is broadcast to the three batch elements, and \<open>forward\<close>
  returns a tensor of shape \<open>(3, 1, vocab_size)\<close>.
\<close>

theorem C9_counterexample:
  "forward mlm_small \<lparr>shape = [3, 1, 1], data = [9 / 1000, 0, - 1]\<rparr>
     \<lparr>shape = [1, 1], data = [0]\<rparr>
     = Inr \<lparr>shape = [3, 1, 1], data = [9 / 11, 0, 0]\<rparr>"
proof -
  have g: "masked_X \<lparr>shape = [3, 1, 1], data = [9 / 1000, 0, - 1 :: real]\<rparr>
             \<lparr>shape = [1, 1], data = [0]\<rparr>
           = Inr \<lparr>shape = [3, 1, 1], data = [9 / 1000, 0, - 1]\<rparr>"
    by (simp add: eval_masked_X)
  show ?thesis
    unfolding forward_def g sum.case by (simp add: eval_mlp)
qed

text \<open>
  Claim C10. Negative prediction positions are accepted: with at least one requested
  position, the gather succeeds when every index \<open>i\<close> satisfies
  \<open>-positions \<le> i < positions\<close>, and then a negative index \<open>i\<close> yields the vector at
  position \<open>positions + i\<close>; as soon as one index is \<open>\<ge> positions\<close> or \<open>< -positions\<close> the
  call raises \<open>IndexError\<close>.
\<close>

theorem C10_negative_positions:
  assumes "shape X = [B, P, F]" and "length (data X) = B * P * F"
    and "shape pp = [B, n]" and "length (data pp) = B * n"
    and "0 < B" and "0 < n"
  shows "(list_all (\<lambda>i. - int P \<le> i \<and> i < int P) (data pp) \<longrightarrow>
            (\<exists>M. masked_X X pp = Inr M
               \<and> (\<forall>b<B. \<forall>k<n. vec_at M b k =
                     vec_at X b (nat (if pos_at pp b k < 0 then int P + pos_at pp b k
                                      else pos_at pp b k)))))
         \<and> (\<not> list_all (\<lambda>i. - int P \<le> i \<and> i < int P) (data pp) \<longrightarrow>
              masked_X X pp = Inl IndexError)"
proof -
  have eq: "list_all (\<lambda>i. - int P \<le> i \<and> i < int P) (data pp) = list_all (in_bounds P) (data pp)"
    by (simp add: in_bounds_def[abs_def])
  have ok: "\<exists>M. masked_X X pp = Inr M
               \<and> (\<forall>b<B. \<forall>k<n. vec_at M b k =
                     vec_at X b (nat (if pos_at pp b k < 0 then int P + pos_at pp b k
                                      else pos_at pp b k)))"
    if inb: "list_all (in_bounds P) (data pp)"
  proof -
    from masked_X_ok[OF assms inb] obtain M where
      M: "masked_X X pp = Inr M"
      and v: "\<And>b k. b < B \<Longrightarrow> k < n \<Longrightarrow>
             vec_at M b k = vec_at X b (wrap_index P (pos_at pp b k))"
      by blast
    from v have "\<forall>b<B. \<forall>k<n. vec_at M b k =
                     vec_at X b (nat (if pos_at pp b k < 0 then int P + pos_at pp b k
                                      else pos_at pp b k))"
      by (simp add: wrap_index_def add.commute)
    with M show ?thesis by blast
  qed
  have bad: "masked_X X pp = Inl IndexError" if "\<not> list_all (in_bounds P) (data pp)"
    using masked_X_matched[OF assms(1,3,4)] assms(5,6) that by simp
  show ?thesis unfolding eq using ok bad by blast
qed

text \<open>The theorem at three positions holding 10, 20 and 30: the indices \<open>-1\<close>, \<open>-3\<close> and
  \<open>2\<close> read 30, 10 and 30; the indices \<open>3\<close> and \<open>-4\<close> raise.\<close>

theorem C10_negative_positions_witness:
  "(\<exists>M. masked_X \<lparr>shape = [1, 3, 1], data = [10, 20, 30 :: real]\<rparr>
            \<lparr>shape = [1, 3], data = [- 1, - 3, 2]\<rparr> = Inr M
        \<and> vec_at M 0 0 = [30] \<and> vec_at M 0 1 = [10] \<and> vec_at M 0 2 = [30])
   \<and> masked_X \<lparr>shape = [1, 3, 1], data = [10, 20, 30 :: real]\<rparr>
            \<lparr>shape = [1, 3], data = [0, 3, 0]\<rparr> = Inl IndexError
   \<and> masked_X \<lparr>shape = [1, 3, 1], data = [10, 20, 30 :: real]\<rparr>
            \<lparr>shape = [1, 3], data = [0, - 4, 0]\<rparr> = Inl IndexError"
proof -
  let ?X = "\<lparr>shape = [1, 3, 1], data = [10, 20, 30 :: real]\<rparr>"
  let ?pp = "\<lparr>shape = [1, 3], data = [- 1, - 3, 2 :: int]\<rparr>"
  from C10_negative_positions[of ?X 1 3 1 ?pp 3] obtain M where
    M: "masked_X ?X ?pp = Inr M"
    and v: "\<forall>b<1. \<forall>k<3. vec_at M b k =
              vec_at ?X b (nat (if pos_at ?pp b k < 0 then int 3 + pos_at ?pp b k
                                else pos_at ?pp b k))"
    by auto
  have "vec_at M 0 0 = [30]" "vec_at M 0 1 = [10]" "vec_at M 0 2 = [30]"
    using v by (simp_all add: vec_at_def pos_at_def)
  moreover have "masked_X ?X \<lparr>shape = [1, 3], data = [0, 3, 0]\<rparr> = Inl IndexError"
    using C10_negative_positions[of ?X 1 3 1 "\<lparr>shape = [1, 3], data = [0, 3, 0]\<rparr>" 3] by simp
  moreover have "masked_X ?X \<lparr>shape = [1, 3], data = [0, - 4, 0]\<rparr> = Inl IndexError"
    using C10_negative_positions[of ?X 1 3 1 "\<lparr>shape = [1, 3], data = [0, - 4, 0]\<rparr>" 3] by simp
  ultimately show ?thesis using M by blast
qed

end
